theory Spec2Isabelle
  imports Main "HOL-Library.AList"
begin

section \<open>The distributed checkpoint manager\<close>

text \<open>
  A shallow embedding of \<^verbatim>\<open>torch_xla/experimental/distributed_checkpoint/manager.py\<close>.
  One process's \<^verbatim>\<open>CheckpointManager\<close> is a record that every method takes and returns;
  the storage below \<^verbatim>\<open>base_path\<close> is an explicit store; every method also returns
  the list of storage and logging calls it made, in the order it made them. What the
  outside world decides (the clock, whether a write succeeds) is an argument of the
  method that asks for it.
\<close>

subsection \<open>Data model\<close>

type_synonym path = string

text \<open>A naive \<^verbatim>\<open>datetime\<close> is a point of a linear time line: microseconds as an integer.\<close>

type_synonym datetime = int

record CheckpointMetadata =
  step :: int
  ts :: datetime

text \<open>
  What \<^verbatim>\<open>pickle.load\<close> returns: a \<^verbatim>\<open>_CheckpointMetadata\<close> with the fields its dataclass
  declares, an \<^verbatim>\<open>int\<close> step and a \<^verbatim>\<open>datetime\<close> timestamp, or an object of another class,
  which has no attribute \<^verbatim>\<open>ts\<close>.
\<close>

datatype pickled_object = Metadata CheckpointMetadata | Other_object

text \<open>
  The file \<^verbatim>\<open>.manager_metadata\<close> of a checkpoint directory either unpickles to an object
  or cannot be deserialized (an empty or truncated file among others).
\<close>

datatype metadata_file = Pickled pickled_object | Corrupt

text \<open>
  A child of \<^verbatim>\<open>base_path\<close>: the snapshot that \<^verbatim>\<open>save_state_dict\<close> wrote there (if one is
  complete) and the metadata file (if there is one).
\<close>

record 's chkpt_dir =
  snapshot :: "'s option"
  manager_metadata :: "metadata_file option"

text \<open>
  The blob filesystem below \<^verbatim>\<open>base_path\<close>: its children by path, in the order in which
  \<^verbatim>\<open>fs.ls\<close> returns them.
\<close>

type_synonym 's storage = "(path \<times> 's chkpt_dir) list"

datatype error =
    AssertionError string
  | UntrackedStep int "int set"
  | ZeroDivisionError
  | AttributeError
  | ListingError
  | SnapshotWriteError
  | MetadataWriteError
  | SnapshotReadError

datatype io_event =
    Fs_ls path
  | Fs_exists path
  | Fs_rm path
  | Open_rb path
  | Open_wb path
  | Save_state_dict path
  | Load_state_dict path
  | Logging_warning "path list"

record 's CheckpointManager =
  base_path :: path
  save_interval :: int
  max_to_keep :: int
  tracked_chkpts :: "CheckpointMetadata list"
  async_queue :: "(int \<times> 's) option list"
  async_queue_size :: int
  pg_rank :: int

text \<open>What the environment decides during one call of \<^verbatim>\<open>save\<close>.\<close>

record save_env =
  now :: datetime
  save_state_dict_ok :: bool
  pickle_dump_ok :: bool

subsection \<open>Paths\<close>

definition MANAGER_METADATA_FILE :: string where
  "MANAGER_METADATA_FILE = ''.manager_metadata''"

text \<open>\<^verbatim>\<open>str\<close> of a Python integer: decimal digits, a minus sign when negative.\<close>

definition digit_char :: "nat \<Rightarrow> char" where
  "digit_char d = ''0123456789'' ! d"

fun str_nat :: "nat \<Rightarrow> string" where
  "str_nat n = (if n < 10 then [digit_char n] else str_nat (n div 10) @ [digit_char (n mod 10)])"

definition str_int :: "int \<Rightarrow> string" where
  "str_int i = (if i < 0 then CHR ''-'' # str_nat (nat (- i)) else str_nat (nat i))"

text \<open>\<^verbatim>\<open>os.path.join\<close> of two components (posixpath).\<close>

definition path_join :: "path \<Rightarrow> path \<Rightarrow> path" where
  "path_join a b =
     (if take 1 b = ''/'' then b
      else if a = [] \<or> last a = CHR ''/'' then a @ b
      else a @ ''/'' @ b)"

definition get_path :: "'s CheckpointManager \<Rightarrow> int \<Rightarrow> path" where
  "get_path m s = path_join (base_path m) (str_int s)"

text \<open>
  The path component of \<^verbatim>\<open>url_to_fs\<close>. The model covers base paths that are absolute local
  paths without a protocol prefix and without a trailing slash, which the local
  filesystem of fsspec returns as they are.
\<close>

definition url_to_fs :: "path \<Rightarrow> path" where
  "url_to_fs p = p"

subsection \<open>The blob filesystem and the snapshot store\<close>

definition fs_ls :: "'s storage \<Rightarrow> path list" where
  "fs_ls fs = map fst fs"

definition fs_exists :: "'s storage \<Rightarrow> path \<Rightarrow> bool" where
  "fs_exists fs p = (map_of fs p \<noteq> None)"

text \<open>\<^verbatim>\<open>fs.rm(path, recursive=True)\<close>: the directory goes with everything in it.\<close>

definition fs_rm :: "'s storage \<Rightarrow> path \<Rightarrow> 's storage" where
  "fs_rm fs p = AList.delete p fs"

text \<open>
  A completed \<^verbatim>\<open>save_state_dict\<close> with an \<^verbatim>\<open>FsspecWriter(path)\<close>: the directory holds the
  snapshot; other files of the directory stay.
\<close>

definition write_snapshot :: "'s storage \<Rightarrow> path \<Rightarrow> 's \<Rightarrow> 's storage" where
  "write_snapshot fs p sd =
     AList.update p
       (case map_of fs p of
          None \<Rightarrow> \<lparr>snapshot = Some sd, manager_metadata = None\<rparr>
        | Some d \<Rightarrow> d\<lparr>snapshot := Some sd\<rparr>) fs"

text \<open>A completed \<^verbatim>\<open>pickle.dump\<close> into \<^verbatim>\<open>path/.manager_metadata\<close>, opened \<^verbatim>\<open>'wb'\<close>.\<close>

definition write_metadata :: "'s storage \<Rightarrow> path \<Rightarrow> CheckpointMetadata \<Rightarrow> 's storage" where
  "write_metadata fs p md =
     AList.update p
       (case map_of fs p of
          None \<Rightarrow> \<lparr>snapshot = None, manager_metadata = Some (Pickled (Metadata md))\<rparr>
        | Some d \<Rightarrow> d\<lparr>manager_metadata := Some (Pickled (Metadata md))\<rparr>) fs"

text \<open>
  A \<^verbatim>\<open>save_state_dict\<close> that raises: the writer has created the directory, which holds no
  complete snapshot.
\<close>

definition failed_write_snapshot :: "'s storage \<Rightarrow> path \<Rightarrow> 's storage" where
  "failed_write_snapshot fs p =
     AList.update p
       (case map_of fs p of
          None \<Rightarrow> \<lparr>snapshot = None, manager_metadata = None\<rparr>
        | Some d \<Rightarrow> d\<lparr>snapshot := None\<rparr>) fs"

text \<open>
  A \<^verbatim>\<open>pickle.dump\<close> that raises: \<^verbatim>\<open>fsspec.open\<close> with \<^verbatim>\<open>'wb'\<close> has created the file, which
  is left empty or truncated.
\<close>

definition failed_write_metadata :: "'s storage \<Rightarrow> path \<Rightarrow> 's storage" where
  "failed_write_metadata fs p =
     AList.update p
       (case map_of fs p of
          None \<Rightarrow> \<lparr>snapshot = None, manager_metadata = Some Corrupt\<rparr>
        | Some d \<Rightarrow> d\<lparr>manager_metadata := Some Corrupt\<rparr>) fs"

text \<open>
  Opening \<^verbatim>\<open>path/.manager_metadata\<close> for reading and unpickling it: the object loaded, or
  \<open>None\<close> when either step raises.
\<close>

definition pickle_load :: "'s storage \<Rightarrow> path \<Rightarrow> pickled_object option" where
  "pickle_load fs p =
     (case map_of fs p of
        None \<Rightarrow> None
      | Some d \<Rightarrow>
          (case manager_metadata d of
             Some (Pickled obj) \<Rightarrow> Some obj
           | Some Corrupt \<Rightarrow> None
           | None \<Rightarrow> None))"

text \<open>\<^verbatim>\<open>load_state_dict\<close> with an \<^verbatim>\<open>FsspecReader(path)\<close>: the state dict as restored in place.\<close>

definition load_state_dict :: "'s storage \<Rightarrow> path \<Rightarrow> 's \<Rightarrow> error + 's" where
  "load_state_dict fs p state_dict =
     (case map_of fs p of
        None \<Rightarrow> Inl SnapshotReadError
      | Some d \<Rightarrow>
          (case snapshot d of
             None \<Rightarrow> Inl SnapshotReadError
           | Some v \<Rightarrow> Inr v))"

subsection \<open>Loading the tracked checkpoints\<close>

text \<open>
  The loop of \<^verbatim>\<open>_load_tracked_chkpts\<close> over the listed paths, with its two accumulators:
  a path whose metadata file cannot be opened or unpickled goes to \<^verbatim>\<open>invalid_paths\<close>.
\<close>

fun load_loop ::
  "'s storage \<Rightarrow> path list \<Rightarrow> pickled_object list \<Rightarrow> path list \<Rightarrow>
     pickled_object list \<times> path list \<times> io_event list" where
  "load_loop fs [] all_chkpts invalid_paths = (all_chkpts, invalid_paths, [])"
| "load_loop fs (p # ps) all_chkpts invalid_paths =
     (case (case pickle_load fs p of
              Some obj \<Rightarrow> load_loop fs ps (all_chkpts @ [obj]) invalid_paths
            | None \<Rightarrow> load_loop fs ps all_chkpts (invalid_paths @ [p])) of
        (a, i, t) \<Rightarrow> (a, i, Open_rb (path_join p MANAGER_METADATA_FILE) # t))"

text \<open>
  \<^verbatim>\<open>sorted(all_chkpts, key=lambda m: m.ts)\<close>: the key of every element is computed first,
  which raises \<^verbatim>\<open>AttributeError\<close> on an object without \<^verbatim>\<open>ts\<close>; the sort is stable, as
  \<^const>\<open>sort_key\<close> is.
\<close>

fun ts_keys :: "pickled_object list \<Rightarrow> error + CheckpointMetadata list" where
  "ts_keys [] = Inr []"
| "ts_keys (Metadata md # objs) =
     (case ts_keys objs of Inl e \<Rightarrow> Inl e | Inr mds \<Rightarrow> Inr (md # mds))"
| "ts_keys (Other_object # objs) = Inl AttributeError"

definition sorted_by_ts :: "pickled_object list \<Rightarrow> error + CheckpointMetadata list" where
  "sorted_by_ts objs =
     (case ts_keys objs of Inl e \<Rightarrow> Inl e | Inr mds \<Rightarrow> Inr (sort_key ts mds))"

text \<open>
  \<^verbatim>\<open>_load_tracked_chkpts\<close>. \<^verbatim>\<open>ls_ok\<close> says whether \<^verbatim>\<open>fs.ls\<close> on the base path returns;
  the only handler is the one around the read of one metadata file: the warning and
  the sort come after it, outside.
\<close>

definition load_tracked_chkpts ::
  "'s CheckpointManager \<Rightarrow> 's storage \<Rightarrow> bool \<Rightarrow>
     (error + CheckpointMetadata list) \<times> io_event list" where
  "load_tracked_chkpts m fs ls_ok =
     (let raw_path = url_to_fs (base_path m) in
      if \<not> ls_ok then (Inl ListingError, [Fs_ls raw_path])
      else
        (case load_loop fs (fs_ls fs) [] [] of
           (all_chkpts, invalid_paths, t) \<Rightarrow>
             (sorted_by_ts all_chkpts,
              Fs_ls raw_path # t @
                (if invalid_paths \<noteq> [] then [Logging_warning invalid_paths] else []))))"

subsection \<open>Deleting and retention\<close>

definition delete_chkpt_at_step ::
  "'s CheckpointManager \<Rightarrow> 's storage \<Rightarrow> int \<Rightarrow> 's storage \<times> io_event list" where
  "delete_chkpt_at_step m fs s =
     (let p = get_path m s;
          raw_path = url_to_fs p
      in
        if fs_exists fs raw_path then (fs_rm fs raw_path, [Fs_exists raw_path, Fs_rm raw_path])
        else (fs, [Fs_exists raw_path]))"

text \<open>
  The \<^verbatim>\<open>while\<close> loop of \<^verbatim>\<open>_release_oldest_checkpoints\<close>. \<^verbatim>\<open>popleft\<close> finds the deque
  non-empty whenever the bound is not negative, which the guard around the loop ensures;
  the empty case leaves the loop.
\<close>

function release_loop ::
  "'s CheckpointManager \<Rightarrow> 's storage \<Rightarrow> 's CheckpointManager \<times> 's storage \<times> io_event list" where
  "release_loop m fs =
     (if int (length (tracked_chkpts m)) > max_to_keep m then
        (case tracked_chkpts m of
           [] \<Rightarrow> (m, fs, [])
         | oldest_chkpt # rest \<Rightarrow>
             (case delete_chkpt_at_step (m\<lparr>tracked_chkpts := rest\<rparr>) fs (step oldest_chkpt) of
                (fs1, t1) \<Rightarrow>
                  (case release_loop (m\<lparr>tracked_chkpts := rest\<rparr>) fs1 of
                     (m2, fs2, t2) \<Rightarrow> (m2, fs2, t1 @ t2))))
      else (m, fs, []))"
  by pat_completeness auto
termination
  by (relation "measure (\<lambda>(m, fs). length (tracked_chkpts m))") auto

definition release_oldest_checkpoints ::
  "'s CheckpointManager \<Rightarrow> 's storage \<Rightarrow> 's CheckpointManager \<times> 's storage \<times> io_event list" where
  "release_oldest_checkpoints m fs =
     (if pg_rank m = 0 \<and> max_to_keep m > 0 then release_loop m fs else (m, fs, []))"

subsection \<open>Saving and restoring\<close>

text \<open>Python's \<^verbatim>\<open>%\<close> on integers is floored, as \<^const>\<open>modulo\<close> on \<^typ>\<open>int\<close>; it raises on 0.\<close>

definition should_save :: "'s CheckpointManager \<Rightarrow> int \<Rightarrow> error + bool" where
  "should_save m s =
     (if save_interval m = 0 then Inl ZeroDivisionError
      else Inr (s mod save_interval m = 0))"

text \<open>
  \<^verbatim>\<open>save\<close>: the result or the exception raised, the manager and the storage as the call
  leaves them, and the calls made. When \<^verbatim>\<open>save_state_dict\<close> or \<^verbatim>\<open>pickle.dump\<close> raises,
  the exception leaves \<^verbatim>\<open>save\<close> with the storage as the failed write left it.
\<close>

definition save ::
  "'s CheckpointManager \<Rightarrow> 's storage \<Rightarrow> save_env \<Rightarrow> int \<Rightarrow> 's \<Rightarrow> bool \<Rightarrow>
     (error + bool) \<times> 's CheckpointManager \<times> 's storage \<times> io_event list" where
  "save m fs env s state_dict force =
     (case should_save m s of
        Inl e \<Rightarrow> (Inl e, m, fs, [])
      | Inr b \<Rightarrow>
          if b \<or> force then
            (let p = get_path m s in
             case delete_chkpt_at_step m fs s of
               (fs1, t1) \<Rightarrow>
                 if \<not> save_state_dict_ok env then
                   (Inl SnapshotWriteError, m, failed_write_snapshot fs1 p,
                    t1 @ [Save_state_dict p])
                 else
                   (let fs2 = write_snapshot fs1 p state_dict;
                        metadata = \<lparr>step = s, ts = now env\<rparr>;
                        f = path_join p MANAGER_METADATA_FILE
                    in
                      if \<not> pickle_dump_ok env then
                        (Inl MetadataWriteError, m, failed_write_metadata fs2 p,
                         t1 @ [Save_state_dict p, Open_wb f])
                      else
                        (let fs3 = write_metadata fs2 p metadata;
                             m1 = m\<lparr>tracked_chkpts := tracked_chkpts m @ [metadata]\<rparr>
                         in
                           case release_oldest_checkpoints m1 fs3 of
                             (m2, fs4, t2) \<Rightarrow>
                               (Inr True, m2, fs4,
                                t1 @ [Save_state_dict p, Open_wb f] @ t2))))
          else (Inr False, m, fs, []))"

definition restore ::
  "'s CheckpointManager \<Rightarrow> 's storage \<Rightarrow> int \<Rightarrow> 's \<Rightarrow>
     (error + 's) \<times> 's CheckpointManager \<times> 's storage \<times> io_event list" where
  "restore m fs s state_dict =
     (let tracked_steps = set (map step (tracked_chkpts m)) in
      if s \<notin> tracked_steps then (Inl (UntrackedStep s tracked_steps), m, fs, [])
      else
        (let p = get_path m s in
         (load_state_dict fs p state_dict, m, fs, [Load_state_dict p])))"

definition all_steps :: "'s CheckpointManager \<Rightarrow> int list" where
  "all_steps m = sort (map step (tracked_chkpts m))"

subsection \<open>The constructor\<close>

text \<open>
  \<^verbatim>\<open>__init__\<close>: the four assertions, then the tracked list is loaded. \<^verbatim>\<open>is_initialized\<close> is
  \<^verbatim>\<open>dist.is_initialized()\<close> and \<^verbatim>\<open>rank\<close> the rank of the process in the group; the worker
  thread that the constructor starts is not part of the model.
\<close>

definition init ::
  "path \<Rightarrow> int \<Rightarrow> int \<Rightarrow> int \<Rightarrow> bool \<Rightarrow> int \<Rightarrow> 's storage \<Rightarrow> bool \<Rightarrow>
     (error + 's CheckpointManager) \<times> io_event list" where
  "init path interval keep queue_size is_initialized rank fs ls_ok =
     (if \<not> is_initialized then (Inl (AssertionError ''A process group is required.''), [])
      else if \<not> interval > 0 then (Inl (AssertionError ''save_interval must be positive''), [])
      else if \<not> queue_size > 0 then
        (Inl (AssertionError ''async_queue_size must be positive''), [])
      else if \<not> keep \<ge> 0 then (Inl (AssertionError ''max_to_keep must be non-negative''), [])
      else
        (let m = \<lparr>base_path = path, save_interval = interval, max_to_keep = keep,
                  tracked_chkpts = [], async_queue = [], async_queue_size = queue_size,
                  pg_rank = rank\<rparr>
         in
           case load_tracked_chkpts m fs ls_ok of
             (Inl e, t) \<Rightarrow> (Inl e, t)
           | (Inr tracked, t) \<Rightarrow> (Inr (m\<lparr>tracked_chkpts := tracked\<rparr>), t)))"

subsection \<open>Calling save once per step\<close>

text \<open>
  The training loop of the class's docstring: \<^verbatim>\<open>save\<close> is called for one step after the
  other, each call with what the environment decides for it, until one raises.
\<close>

type_synonym 's save_call = "save_env \<times> int \<times> 's \<times> bool"

fun save_each ::
  "'s CheckpointManager \<Rightarrow> 's storage \<Rightarrow> 's save_call list \<Rightarrow>
     (error + bool list) \<times> 's CheckpointManager \<times> 's storage" where
  "save_each m fs [] = (Inr [], m, fs)"
| "save_each m fs ((env, s, state_dict, force) # cs) =
     (case save m fs env s state_dict force of
        (Inl e, m1, fs1, t) \<Rightarrow> (Inl e, m1, fs1)
      | (Inr b, m1, fs1, t) \<Rightarrow>
          (case save_each m1 fs1 cs of
             (Inl e, m2, fs2) \<Rightarrow> (Inl e, m2, fs2)
           | (Inr bs, m2, fs2) \<Rightarrow> (Inr (b # bs), m2, fs2)))"

subsection \<open>Notions used to state the properties\<close>

text \<open>A call is due when it is forced or its step is a multiple of the interval.\<close>

definition due :: "'s CheckpointManager \<Rightarrow> 's save_call \<Rightarrow> bool" where
  "due m c = (case c of (env, s, state_dict, force) \<Rightarrow> force \<or> s mod save_interval m = 0)"

definition metadata_of :: "'s save_call \<Rightarrow> CheckpointMetadata" where
  "metadata_of c = (case c of (env, s, state_dict, force) \<Rightarrow> \<lparr>step = s, ts = now env\<rparr>)"

text \<open>The metadata of the checkpoints that a list of calls takes, in the order taken.\<close>

definition taken :: "'s CheckpointManager \<Rightarrow> 's save_call list \<Rightarrow> CheckpointMetadata list" where
  "taken m cs = map metadata_of (filter (due m) cs)"

text \<open>
  What retention leaves of a tracked list: on rank 0 with a positive bound the last
  \<^verbatim>\<open>max_to_keep\<close> entries, everything otherwise.
\<close>

definition retain ::
  "'s CheckpointManager \<Rightarrow> CheckpointMetadata list \<Rightarrow> CheckpointMetadata list" where
  "retain m xs =
     (if pg_rank m = 0 \<and> 0 < max_to_keep m then drop (length xs - nat (max_to_keep m)) xs
      else xs)"

text \<open>Both writes of a call succeed.\<close>

definition writes_ok :: "'s save_call \<Rightarrow> bool" where
  "writes_ok c =
     (case c of (env, s, state_dict, force) \<Rightarrow> save_state_dict_ok env \<and> pickle_dump_ok env)"

text \<open>
  What the listed paths hold: the metadata read, in listing order; the paths whose
  metadata file is missing or cannot be unpickled; and the paths whose metadata file
  unpickles to an object that is no \<^verbatim>\<open>_CheckpointMetadata\<close>.
\<close>

fun metadata_in :: "pickled_object option \<Rightarrow> CheckpointMetadata option" where
  "metadata_in (Some (Metadata md)) = Some md"
| "metadata_in (Some Other_object) = None"
| "metadata_in None = None"

definition readable :: "'s storage \<Rightarrow> CheckpointMetadata list" where
  "readable fs = List.map_filter (\<lambda>p. metadata_in (pickle_load fs p)) (fs_ls fs)"

definition unreadable :: "'s storage \<Rightarrow> path list" where
  "unreadable fs = filter (\<lambda>p. pickle_load fs p = None) (fs_ls fs)"

definition foreign :: "'s storage \<Rightarrow> path list" where
  "foreign fs = filter (\<lambda>p. pickle_load fs p = Some Other_object) (fs_ls fs)"

subsection \<open>Concrete scenarios\<close>

text \<open>
  A manager on the base path \<^verbatim>\<open>/ckpt\<close>, and the call of \<^verbatim>\<open>save(s, snap)\<close> at step \<open>s\<close> whose writes
  succeed, the clock reading \<open>s\<close>.
\<close>

definition example_manager :: "int \<Rightarrow> int \<Rightarrow> int \<Rightarrow> nat CheckpointManager" where
  "example_manager interval keep rank =
     \<lparr>base_path = ''/ckpt'', save_interval = interval, max_to_keep = keep, tracked_chkpts = [],
      async_queue = [], async_queue_size = 1, pg_rank = rank\<rparr>"

definition call_at :: "int \<Rightarrow> nat save_call" where
  "call_at s = (\<lparr>now = s, save_state_dict_ok = True, pickle_dump_ok = True\<rparr>, s, 0, False)"

text \<open>A forced call at step \<open>s\<close>, the clock reading \<open>t\<close>; a complete checkpoint directory.\<close>

definition forced_call :: "int \<Rightarrow> datetime \<Rightarrow> nat save_call" where
  "forced_call s t = (\<lparr>now = t, save_state_dict_ok = True, pickle_dump_ok = True\<rparr>, s, 0, True)"

definition checkpoint_dir :: "int \<Rightarrow> datetime \<Rightarrow> nat chkpt_dir" where
  "checkpoint_dir s t =
     \<lparr>snapshot = Some 0, manager_metadata = Some (Pickled (Metadata \<lparr>step = s, ts = t\<rparr>))\<rparr>"



text \<open>A checkpoint of step 0 taken at time 1, holding the snapshot 7, and its manager.\<close>

definition old_checkpoint :: "nat storage" where
  "old_checkpoint =
     [(''/ckpt/0'',
       \<lparr>snapshot = Some 7, manager_metadata = Some (Pickled (Metadata \<lparr>step = 0, ts = 1\<rparr>))\<rparr>)]"

definition tracking_old :: "int \<Rightarrow> int \<Rightarrow> int \<Rightarrow> nat CheckpointManager" where
  "tracking_old interval keep rank =
     (example_manager interval keep rank)\<lparr>tracked_chkpts := [\<lparr>step = 0, ts = 1\<rparr>]\<rparr>"

section \<open>Properties\<close>

subsection \<open>What a call leaves of the manager\<close>

declare release_loop.simps [simp del]

lemma release_loop_manager:
  "release_loop m fs = (m', fs', t) \<Longrightarrow>
     m' = m\<lparr>tracked_chkpts :=
            drop (nat (int (length (tracked_chkpts m)) - max_to_keep m)) (tracked_chkpts m)\<rparr>"
proof (induction m fs arbitrary: m' fs' t rule: release_loop.induct)
  case (1 m fs)
  show ?case
  proof (cases "int (length (tracked_chkpts m)) > max_to_keep m")
    case False
    with "1.prems" show ?thesis
      by (simp add: release_loop.simps [of m fs])
  next
    case True
    show ?thesis
    proof (cases "tracked_chkpts m")
      case Nil
      with True "1.prems" show ?thesis
        by (simp add: release_loop.simps [of m fs])
    next
      case (Cons oldest rest)
      obtain fs1 t1 where d: "delete_chkpt_at_step (m\<lparr>tracked_chkpts := rest\<rparr>) fs (step oldest) = (fs1, t1)"
        by (cases "delete_chkpt_at_step (m\<lparr>tracked_chkpts := rest\<rparr>) fs (step oldest)")
      obtain m2 fs2 t2 where r: "release_loop (m\<lparr>tracked_chkpts := rest\<rparr>) fs1 = (m2, fs2, t2)"
        by (cases "release_loop (m\<lparr>tracked_chkpts := rest\<rparr>) fs1") auto
      from True Cons d r "1.prems" have m': "m' = m2"
        by (simp add: release_loop.simps [of m fs])
      from "1.IH" [OF True Cons d [symmetric] r]
      have "m2 = m\<lparr>tracked_chkpts := drop (nat (int (length rest) - max_to_keep m)) rest\<rparr>"
        by simp
      moreover have "nat (int (length (tracked_chkpts m)) - max_to_keep m)
          = Suc (nat (int (length rest) - max_to_keep m))"
        using True Cons by simp
      ultimately show ?thesis
        using m' Cons by simp
    qed
  qed
qed

lemma release_oldest_manager:
  assumes "release_oldest_checkpoints m fs = (m', fs', t)"
  shows "m' = m\<lparr>tracked_chkpts := retain m (tracked_chkpts m)\<rparr>"
proof (cases "pg_rank m = 0 \<and> max_to_keep m > 0")
  case True
  then have "nat (int (length (tracked_chkpts m)) - max_to_keep m)
      = length (tracked_chkpts m) - nat (max_to_keep m)"
    by linarith
  with True assms release_loop_manager [of m fs m' fs' t] show ?thesis
    by (simp add: release_oldest_checkpoints_def retain_def)
next
  case False
  with assms show ?thesis
    by (auto simp: release_oldest_checkpoints_def retain_def)
qed

lemma save_manager:
  assumes "save m fs env s sd force = (r, m', fs', t)"
  shows "(r = Inr True \<and> save_interval m \<noteq> 0 \<and> (force \<or> s mod save_interval m = 0) \<and>
          m' = m\<lparr>tracked_chkpts := retain m (tracked_chkpts m @ [\<lparr>step = s, ts = now env\<rparr>])\<rparr>)
       \<or> (r = Inr False \<and> save_interval m \<noteq> 0 \<and> \<not> (force \<or> s mod save_interval m = 0) \<and> m' = m)
       \<or> (isl r \<and> m' = m)"
proof -
  obtain m2 fs4 t2 where rel:
    "release_oldest_checkpoints (m\<lparr>tracked_chkpts := tracked_chkpts m @ [\<lparr>step = s, ts = now env\<rparr>]\<rparr>)
       (write_metadata (write_snapshot (fst (delete_chkpt_at_step m fs s)) (get_path m s) sd)
          (get_path m s) \<lparr>step = s, ts = now env\<rparr>) = (m2, fs4, t2)"
    using prod_cases3 by blast
  from release_oldest_manager [OF rel]
  have "m2 = m\<lparr>tracked_chkpts := retain m (tracked_chkpts m @ [\<lparr>step = s, ts = now env\<rparr>])\<rparr>"
    by (simp add: retain_def)
  with assms rel show ?thesis
    by (auto simp: save_def should_save_def Let_def split: if_splits prod.splits)
qed

lemma retain_unchanged [simp]: "retain (m\<lparr>tracked_chkpts := xs\<rparr>) = retain m"
  by (rule ext) (simp add: retain_def)

lemma taken_unchanged [simp]: "taken (m\<lparr>tracked_chkpts := xs\<rparr>) cs = taken m cs"
  by (simp add: taken_def due_def [abs_def])

lemma drop_last_append:
  "drop (length (drop (length xs - k) xs @ ys) - k) (drop (length xs - k) xs @ ys)
     = drop (length (xs @ ys) - k) (xs @ ys)"
proof (cases "length xs \<le> k")
  case True
  then show ?thesis by simp
next
  case False
  then have "length xs + length ys - (length xs - k + k) + (length xs - k)
      = length xs + length ys - k"
    by simp
  with False show ?thesis by simp
qed

lemma retain_retain_append: "retain m (retain m xs @ ys) = retain m (xs @ ys)"
  using drop_last_append [of xs "nat (max_to_keep m)" ys] by (simp add: retain_def)

lemma retain_last:
  assumes "xs \<noteq> []"
  shows "last xs \<in> set (retain m xs)"
proof (cases "pg_rank m = 0 \<and> 0 < max_to_keep m")
  case True
  then have "length xs - nat (max_to_keep m) < length xs"
    using assms by (cases xs) auto
  then have "drop (length xs - nat (max_to_keep m)) xs \<noteq> []"
    by simp
  then have "last (drop (length xs - nat (max_to_keep m)) xs) \<in> set (drop (length xs - nat (max_to_keep m)) xs)"
    by (rule last_in_set)
  moreover have "last (drop (length xs - nat (max_to_keep m)) xs) = last xs"
    using \<open>length xs - nat (max_to_keep m) < length xs\<close> by (rule last_drop)
  ultimately show ?thesis
    using True by (simp add: retain_def)
next
  case False
  with assms show ?thesis
    by (auto simp: retain_def)
qed

lemma save_each_manager:
  "save_each m fs cs = (Inr bs, m', fs') \<Longrightarrow>
     m' = m\<lparr>tracked_chkpts :=
            (if taken m cs = [] then tracked_chkpts m
             else retain m (tracked_chkpts m @ taken m cs))\<rparr>"
proof (induction cs arbitrary: m fs bs m' fs')
  case Nil
  then show ?case by (simp add: taken_def)
next
  case (Cons c cs)
  obtain env s sd force where c: "c = (env, s, sd, force)"
    by (cases c)
  obtain r m1 fs1 t where sv: "save m fs env s sd force = (r, m1, fs1, t)"
    by (cases "save m fs env s sd force")
  with Cons.prems c obtain b where r: "r = Inr b"
    by (cases r) auto
  obtain r2 m2 fs2 where rest: "save_each m1 fs1 cs = (r2, m2, fs2)"
    by (cases "save_each m1 fs1 cs")
  with Cons.prems c sv r obtain bs2 where r2: "r2 = Inr bs2" and m2: "m2 = m'"
    by (cases r2) auto
  note ih = Cons.IH [OF rest [unfolded r2 m2]]
  from save_manager [OF sv] r
  consider
    (took) "b" "force \<or> s mod save_interval m = 0"
      "m1 = m\<lparr>tracked_chkpts := retain m (tracked_chkpts m @ [\<lparr>step = s, ts = now env\<rparr>])\<rparr>"
  | (skipped) "\<not> b" "\<not> (force \<or> s mod save_interval m = 0)" "m1 = m"
    by auto
  then show ?case
  proof cases
    case took
    then have tk: "taken m (c # cs) = \<lparr>step = s, ts = now env\<rparr> # taken m cs"
      by (simp add: taken_def due_def metadata_of_def c)
    show ?thesis
      using ih took(3) tk retain_retain_append [of m "tracked_chkpts m @ [\<lparr>step = s, ts = now env\<rparr>]" "taken m cs"]
      by simp
  next
    case skipped
    then have tk: "taken m (c # cs) = taken m cs"
      by (simp add: taken_def due_def metadata_of_def c)
    show ?thesis
      using ih skipped(3) tk by simp
  qed
qed

lemma sorted_take_le_drop:
  assumes "sorted (map f xs)" "x \<in> set (take n xs)" "y \<in> set (drop n xs)"
  shows "f x \<le> f y"
proof -
  have "sorted (map f (take n xs) @ map f (drop n xs))"
    using assms(1) by (simp flip: map_append)
  with assms(2,3) show ?thesis
    by (auto simp: sorted_append)
qed


subsection \<open>What a call does to the storage\<close>

lemma delete_chkpt_trace:
  "delete_chkpt_at_step m fs s = (fs', t) \<Longrightarrow> e \<in> set t \<Longrightarrow>
     e = Fs_exists (get_path m s) \<or> e = Fs_rm (get_path m s)"
  by (auto simp: delete_chkpt_at_step_def url_to_fs_def Let_def split: if_splits)

lemma release_loop_trace:
  "release_loop m fs = (m', fs', t) \<Longrightarrow> e \<in> set t \<Longrightarrow> (\<exists>p. e = Fs_exists p \<or> e = Fs_rm p)"
proof (induction m fs arbitrary: m' fs' t rule: release_loop.induct)
  case (1 m fs)
  show ?case
  proof (cases "int (length (tracked_chkpts m)) > max_to_keep m")
    case False
    with "1.prems" show ?thesis
      by (simp add: release_loop.simps [of m fs])
  next
    case True
    show ?thesis
    proof (cases "tracked_chkpts m")
      case Nil
      with True "1.prems" show ?thesis
        by (simp add: release_loop.simps [of m fs])
    next
      case (Cons oldest rest)
      obtain fs1 t1 where d: "delete_chkpt_at_step (m\<lparr>tracked_chkpts := rest\<rparr>) fs (step oldest) = (fs1, t1)"
        by (cases "delete_chkpt_at_step (m\<lparr>tracked_chkpts := rest\<rparr>) fs (step oldest)")
      obtain m2 fs2 t2 where r: "release_loop (m\<lparr>tracked_chkpts := rest\<rparr>) fs1 = (m2, fs2, t2)"
        by (cases "release_loop (m\<lparr>tracked_chkpts := rest\<rparr>) fs1") auto
      from True Cons d r "1.prems"(1) have "t = t1 @ t2"
        by (simp add: release_loop.simps [of m fs])
      with "1.prems"(2) consider "e \<in> set t1" | "e \<in> set t2"
        by auto
      then show ?thesis
      proof cases
        case 1
        with delete_chkpt_trace [OF d] show ?thesis by blast
      next
        case 2
        with "1.IH" [OF True Cons d [symmetric] r] show ?thesis by blast
      qed
    qed
  qed
qed

lemma release_oldest_trace:
  "release_oldest_checkpoints m fs = (m', fs', t) \<Longrightarrow> e \<in> set t \<Longrightarrow>
     (\<exists>p. e = Fs_exists p \<or> e = Fs_rm p)"
  using release_loop_trace [of m fs m' fs' t e]
  by (auto simp: release_oldest_checkpoints_def split: if_splits)

lemma delete_chkpt_storage:
  assumes "delete_chkpt_at_step m fs s = (fs1, t1)"
  shows "map_of fs1 (get_path m s) = None"
    and "p \<noteq> get_path m s \<Longrightarrow> map_of fs1 p = map_of fs p"
    and "\<not> fs_exists fs (get_path m s) \<Longrightarrow> fs1 = fs"
  using assms
  by (auto simp: delete_chkpt_at_step_def url_to_fs_def Let_def fs_exists_def fs_rm_def
      delete_conv' split: if_splits)

lemma write_snapshot_other:
  "p \<noteq> q \<Longrightarrow> map_of (write_snapshot fs q sd) p = map_of fs p"
  by (simp add: write_snapshot_def update_conv')

lemma failed_write_snapshot_other:
  "p \<noteq> q \<Longrightarrow> map_of (failed_write_snapshot fs q) p = map_of fs p"
  by (simp add: failed_write_snapshot_def update_conv')

lemma failed_write_metadata_other:
  "p \<noteq> q \<Longrightarrow> map_of (failed_write_metadata fs q) p = map_of fs p"
  by (simp add: failed_write_metadata_def update_conv')

lemma save_unfold:
  assumes "delete_chkpt_at_step m fs s = (fs1, t1)"
    and "release_oldest_checkpoints (m\<lparr>tracked_chkpts := tracked_chkpts m @ [\<lparr>step = s, ts = now env\<rparr>]\<rparr>)
       (write_metadata (write_snapshot fs1 (get_path m s) state_dict) (get_path m s)
          \<lparr>step = s, ts = now env\<rparr>) = (m2, fs4, t2)"
  shows "save m fs env s state_dict force =
     (if save_interval m = 0 then (Inl ZeroDivisionError, m, fs, [])
      else if \<not> (s mod save_interval m = 0 \<or> force) then (Inr False, m, fs, [])
      else if \<not> save_state_dict_ok env then
        (Inl SnapshotWriteError, m, failed_write_snapshot fs1 (get_path m s),
         t1 @ [Save_state_dict (get_path m s)])
      else if \<not> pickle_dump_ok env then
        (Inl MetadataWriteError, m,
         failed_write_metadata (write_snapshot fs1 (get_path m s) state_dict) (get_path m s),
         t1 @ [Save_state_dict (get_path m s),
               Open_wb (path_join (get_path m s) MANAGER_METADATA_FILE)])
      else
        (Inr True, m2, fs4,
         t1 @ [Save_state_dict (get_path m s),
               Open_wb (path_join (get_path m s) MANAGER_METADATA_FILE)] @ t2))"
  using assms by (simp add: save_def should_save_def Let_def)


lemma write_metadata_other:
  "p \<noteq> q \<Longrightarrow> map_of (write_metadata fs q md) p = map_of fs p"
  by (simp add: write_metadata_def update_conv')

lemma save_returns:
  assumes "save_interval m \<noteq> 0" and "save_state_dict_ok env" and "pickle_dump_ok env"
  shows "\<exists>b m' fs' t. save m fs env s state_dict force = (Inr b, m', fs', t)
           \<and> save_interval m' = save_interval m"
proof -
  obtain r m' fs' t where sv: "save m fs env s state_dict force = (r, m', fs', t)"
    by (cases "save m fs env s state_dict force")
  from save_manager [OF sv] have "save_interval m' = save_interval m"
    by auto
  moreover from sv assms have "\<not> isl r"
    by (auto simp: save_def should_save_def Let_def split: if_splits prod.splits)
  then obtain b where "r = Inr b"
    by (cases r) auto
  ultimately show ?thesis
    using sv by blast
qed

lemma save_each_returns:
  "save_interval m \<noteq> 0 \<Longrightarrow> list_all writes_ok cs \<Longrightarrow>
     \<exists>bs m' fs'. save_each m fs cs = (Inr bs, m', fs')"
proof (induction cs arbitrary: m fs)
  case Nil
  then show ?case by simp
next
  case (Cons c cs)
  obtain env s sd force where c: "c = (env, s, sd, force)"
    by (cases c)
  from Cons.prems(2) have "writes_ok c" and rest: "list_all writes_ok cs"
    by simp_all
  with c have ok: "save_state_dict_ok env" "pickle_dump_ok env"
    by (simp_all add: writes_ok_def)
  from save_returns [OF Cons.prems(1) ok, of fs s sd force]
  obtain b m1 fs1 t where sv: "save m fs env s sd force = (Inr b, m1, fs1, t)"
    and iv: "save_interval m1 = save_interval m"
    by blast
  from iv Cons.prems(1) have "save_interval m1 \<noteq> 0"
    by simp
  from Cons.IH [OF this rest, of fs1]
  obtain bs m' fs' where "save_each m1 fs1 cs = (Inr bs, m', fs')"
    by blast
  with sv c show ?case
    by simp
qed


lemma taken_every_step:
  "save_interval m = 1 \<Longrightarrow> taken m cs = map metadata_of cs"
  by (simp add: taken_def due_def [abs_def] case_prod_unfold)

lemma load_loop_result:
  "load_loop fs ps all_chkpts invalid_paths =
     (all_chkpts @ List.map_filter (pickle_load fs) ps,
      invalid_paths @ filter (\<lambda>p. pickle_load fs p = None) ps,
      map (\<lambda>p. Open_rb (path_join p MANAGER_METADATA_FILE)) ps)"
  by (induction ps arbitrary: all_chkpts invalid_paths)
    (auto simp: map_filter_simps split: option.splits)

lemma ts_keys_loaded:
  "ts_keys (List.map_filter (pickle_load fs) ps) =
     (if filter (\<lambda>p. pickle_load fs p = Some Other_object) ps = []
      then Inr (List.map_filter (\<lambda>p. metadata_in (pickle_load fs p)) ps)
      else Inl AttributeError)"
proof (induction ps)
  case Nil
  then show ?case by (simp add: map_filter_simps)
next
  case (Cons p ps)
  show ?case
  proof (cases "pickle_load fs p")
    case None
    with Cons show ?thesis by (simp add: map_filter_simps)
  next
    case (Some obj)
    with Cons show ?thesis by (cases obj) (simp_all add: map_filter_simps)
  qed
qed

lemma load_tracked_chkpts_result:
  "load_tracked_chkpts m fs True =
     (if foreign fs = [] then Inr (sort_key ts (readable fs)) else Inl AttributeError,
      Fs_ls (base_path m) # map (\<lambda>p. Open_rb (path_join p MANAGER_METADATA_FILE)) (fs_ls fs) @
        (if unreadable fs = [] then [] else [Logging_warning (unreadable fs)]))"
  by (simp add: load_tracked_chkpts_def load_loop_result sorted_by_ts_def ts_keys_loaded
      readable_def unreadable_def foreign_def url_to_fs_def)

lemma init_establishes:
  assumes "init path interval keep queue_size is_initialized rank fs ls_ok = (Inr m, t)"
  shows "0 < save_interval m \<and> 0 \<le> max_to_keep m \<and> 0 < async_queue_size m
    \<and> pg_rank m = rank \<and> sorted (map ts (tracked_chkpts m))"
proof -
  from assms have ok: "is_initialized" "0 < interval" "0 < queue_size" "0 \<le> keep"
    by (auto simp: init_def split: if_splits)
  let ?m0 = "\<lparr>base_path = path, save_interval = interval, max_to_keep = keep,
      tracked_chkpts = [], async_queue = [], async_queue_size = queue_size, pg_rank = rank\<rparr>"
  from assms ok obtain tracked where
    ld: "fst (load_tracked_chkpts ?m0 fs ls_ok) = Inr tracked"
    and m: "m = ?m0\<lparr>tracked_chkpts := tracked\<rparr>"
    by (auto simp: init_def Let_def split: prod.splits sum.splits)
  from ld have "ls_ok"
    by (auto simp: load_tracked_chkpts_def Let_def split: if_splits)
  with ld load_tracked_chkpts_result [of ?m0 fs] have "tracked = sort_key ts (readable fs)"
    by (auto split: if_splits)
  with m ok show ?thesis
    by simp
qed

subsection \<open>The claims\<close>

text \<open>
  C6. For every integer step \<open>s\<close>, \<^verbatim>\<open>should_save(s)\<close> returns true if and only if
  \<open>s\<close> modulo \<^verbatim>\<open>save_interval\<close> equals 0. The constructor asserts that the interval is
  positive; the statement needs only that it is not 0, where \<^verbatim>\<open>%\<close> raises.
\<close>

theorem should_save_iff_mod:
  "save_interval m \<noteq> 0 \<Longrightarrow> should_save m s = Inr (s mod save_interval m = 0)"
  by (simp add: should_save_def)

theorem should_save_iff_mod_witness:
  "should_save
     \<lparr>base_path = ''/ckpt'', save_interval = 10, max_to_keep = 2, tracked_chkpts = [],
      async_queue = ([] :: (int \<times> nat) option list), async_queue_size = 1, pg_rank = 0\<rparr> 20
   = Inr True
   \<and> should_save
     \<lparr>base_path = ''/ckpt'', save_interval = 10, max_to_keep = 2, tracked_chkpts = [],
      async_queue = ([] :: (int \<times> nat) option list), async_queue_size = 1, pg_rank = 0\<rparr> (- 7)
   = Inr False"
  using should_save_iff_mod [of "\<lparr>base_path = ''/ckpt'', save_interval = 10, max_to_keep = 2,
      tracked_chkpts = [], async_queue = ([] :: (int \<times> nat) option list),
      async_queue_size = 1, pg_rank = 0\<rparr>" 20]
    should_save_iff_mod [of "\<lparr>base_path = ''/ckpt'', save_interval = 10, max_to_keep = 2,
      tracked_chkpts = [], async_queue = ([] :: (int \<times> nat) option list),
      async_queue_size = 1, pg_rank = 0\<rparr>" "- 7"]
  by simp

text \<open>
  C4. For every step, snapshot and force flag: when neither \<^verbatim>\<open>force\<close> nor
  \<^verbatim>\<open>should_save(s)\<close> holds, \<^verbatim>\<open>save\<close> returns \<^verbatim>\<open>False\<close> with the manager and the storage
  untouched and no storage call made; and whenever \<^verbatim>\<open>save\<close> returns \<^verbatim>\<open>True\<close>,
  \<^verbatim>\<open>all_steps()\<close> contains \<open>s\<close>.
\<close>

theorem save_gate_and_tracking:
  "(should_save m s = Inr False \<and> \<not> force \<longrightarrow> save m fs env s state_dict force = (Inr False, m, fs, []))
   \<and> (save m fs env s state_dict force = (Inr True, m', fs', t) \<longrightarrow> s \<in> set (all_steps m'))"
proof (intro conjI impI)
  assume "should_save m s = Inr False \<and> \<not> force"
  then show "save m fs env s state_dict force = (Inr False, m, fs, [])"
    by (simp add: save_def)
next
  assume a: "save m fs env s state_dict force = (Inr True, m', fs', t)"
  from save_manager [OF a]
  have "tracked_chkpts m' = retain m (tracked_chkpts m @ [\<lparr>step = s, ts = now env\<rparr>])"
    by auto
  with retain_last [of "tracked_chkpts m @ [\<lparr>step = s, ts = now env\<rparr>]" m]
  have "\<lparr>step = s, ts = now env\<rparr> \<in> set (tracked_chkpts m')"
    by simp
  then have "step \<lparr>step = s, ts = now env\<rparr> \<in> step ` set (tracked_chkpts m')"
    by (rule imageI)
  then show "s \<in> set (all_steps m')"
    by (simp add: all_steps_def)
qed

theorem save_gate_and_tracking_witness:
  "should_save (example_manager 10 2 0) 3 = Inr False
   \<and> save (example_manager 10 2 0) [] \<lparr>now = 3, save_state_dict_ok = True, pickle_dump_ok = True\<rparr>
        3 (0::nat) False = (Inr False, example_manager 10 2 0, [], [])
   \<and> save (example_manager 10 2 0) [] \<lparr>now = 10, save_state_dict_ok = True, pickle_dump_ok = True\<rparr>
        10 (0::nat) False =
      (Inr True, (example_manager 10 2 0)\<lparr>tracked_chkpts := [\<lparr>step = 10, ts = 10\<rparr>]\<rparr>,
       [(''/ckpt/10'', checkpoint_dir 10 10)],
       [Fs_exists ''/ckpt/10'', Save_state_dict ''/ckpt/10'', Open_wb ''/ckpt/10/.manager_metadata''])
   \<and> 10 \<in> set (all_steps ((example_manager 10 2 0)\<lparr>tracked_chkpts := [\<lparr>step = 10, ts = 10\<rparr>]\<rparr>))"
proof -
  let ?m = "example_manager 10 2 0"
  let ?m' = "?m\<lparr>tracked_chkpts := [\<lparr>step = 10, ts = 10\<rparr>]\<rparr>"
  have gate: "should_save ?m 3 = Inr False \<and> \<not> False"
    by code_simp
  have run: "save ?m [] \<lparr>now = 10, save_state_dict_ok = True, pickle_dump_ok = True\<rparr> 10 (0::nat) False =
      (Inr True, ?m', [(''/ckpt/10'', checkpoint_dir 10 10)],
       [Fs_exists ''/ckpt/10'', Save_state_dict ''/ckpt/10'', Open_wb ''/ckpt/10/.manager_metadata''])"
    by code_simp
  from save_gate_and_tracking [of ?m 3 False "[]"
      "\<lparr>now = 3, save_state_dict_ok = True, pickle_dump_ok = True\<rparr>" 0 ?m' "[]" "[]"] gate
  have a: "save ?m [] \<lparr>now = 3, save_state_dict_ok = True, pickle_dump_ok = True\<rparr> 3 (0::nat) False
      = (Inr False, ?m, [], [])"
    by blast
  from save_gate_and_tracking [of ?m 10 False "[]"
      "\<lparr>now = 10, save_state_dict_ok = True, pickle_dump_ok = True\<rparr>" 0 ?m'
      "[(''/ckpt/10'', checkpoint_dir 10 10)]"
      "[Fs_exists ''/ckpt/10'', Save_state_dict ''/ckpt/10'', Open_wb ''/ckpt/10/.manager_metadata'']"] run
  have b: "10 \<in> set (all_steps ?m')"
    by blast
  from gate a run b show ?thesis
    by blast
qed

text \<open>
  C2, as amended. After a sequence of calls of \<^verbatim>\<open>save\<close> with \<^verbatim>\<open>max_to_keep > 0\<close>, none of
  which raises: on the process of rank 0, when at least one checkpoint is taken,
  \<^verbatim>\<open>len(all_steps()) <= max_to_keep\<close>, and the tracked entries are the last
  \<^verbatim>\<open>max_to_keep\<close> of the entries tracked before followed by those taken; when these are in
  timestamp order (the clock does not go back), no evicted entry is more recent than a
  retained one. On a process of nonzero rank no tracked entry is ever removed: the
  tracked entries are those tracked before followed by all those taken. The witness is
  the scenario of the claim, interval 10, bound 2, steps 0 to 29: it leaves
  \<^verbatim>\<open>all_steps() == [10, 20]\<close> on rank 0 and the three entries taken on rank 1.
\<close>

theorem retention_by_rank:
  assumes "0 < max_to_keep m"
    and "save_each m fs cs = (Inr bs, m', fs')"
  shows "(pg_rank m = 0 \<and> taken m cs \<noteq> [] \<longrightarrow>
           int (length (all_steps m')) \<le> max_to_keep m
           \<and> tracked_chkpts m' =
               drop (length (tracked_chkpts m @ taken m cs) - nat (max_to_keep m))
                 (tracked_chkpts m @ taken m cs)
           \<and> (sorted (map ts (tracked_chkpts m @ taken m cs)) \<longrightarrow>
               (\<forall>evicted \<in> set (take (length (tracked_chkpts m @ taken m cs) - nat (max_to_keep m))
                                   (tracked_chkpts m @ taken m cs)).
                \<forall>kept \<in> set (tracked_chkpts m'). ts evicted \<le> ts kept)))
       \<and> (pg_rank m \<noteq> 0 \<longrightarrow> tracked_chkpts m' = tracked_chkpts m @ taken m cs)"
proof (intro conjI impI)
  assume "pg_rank m \<noteq> 0"
  with save_each_manager [OF assms(2)] show "tracked_chkpts m' = tracked_chkpts m @ taken m cs"
    by (simp add: retain_def)
next
  let ?all = "tracked_chkpts m @ taken m cs"
  let ?n = "length ?all - nat (max_to_keep m)"
  assume zero: "pg_rank m = 0 \<and> taken m cs \<noteq> []"
  with save_each_manager [OF assms(2)] assms(1)
  have tr: "tracked_chkpts m' = drop ?n ?all"
    by (simp add: retain_def)
  then show "tracked_chkpts m' = drop ?n ?all" .
  have "length (tracked_chkpts m') \<le> nat (max_to_keep m)"
    unfolding tr length_drop by arith
  moreover have "length (all_steps m') = length (tracked_chkpts m')"
    by (simp add: all_steps_def)
  ultimately show "int (length (all_steps m')) \<le> max_to_keep m"
    using assms(1) by linarith
  assume "sorted (map ts ?all)"
  from sorted_take_le_drop [OF this]
  show "\<forall>evicted \<in> set (take ?n ?all). \<forall>kept \<in> set (tracked_chkpts m'). ts evicted \<le> ts kept"
    unfolding tr by blast
qed

theorem retention_by_rank_witness:
  "save_each (example_manager 10 2 0) [] (map call_at [0..29]) =
     (Inr [True, False, False, False, False, False, False, False, False, False,
           True, False, False, False, False, False, False, False, False, False,
           True, False, False, False, False, False, False, False, False, False],
      (example_manager 10 2 0)\<lparr>tracked_chkpts := [\<lparr>step = 10, ts = 10\<rparr>, \<lparr>step = 20, ts = 20\<rparr>]\<rparr>,
      [(''/ckpt/10'', checkpoint_dir 10 10), (''/ckpt/20'', checkpoint_dir 20 20)])
   \<and> taken (example_manager 10 2 0) (map call_at [0..29]) =
       [\<lparr>step = 0, ts = 0\<rparr>, \<lparr>step = 10, ts = 10\<rparr>, \<lparr>step = 20, ts = 20\<rparr>]
   \<and> sorted (map ts (tracked_chkpts (example_manager 10 2 0) @
         taken (example_manager 10 2 0) (map call_at [0..29])))
   \<and> all_steps ((example_manager 10 2 0)\<lparr>tracked_chkpts :=
         [\<lparr>step = 10, ts = 10\<rparr>, \<lparr>step = 20, ts = 20\<rparr>]\<rparr>) = [10, 20]
   \<and> int (length (all_steps ((example_manager 10 2 0)\<lparr>tracked_chkpts :=
         [\<lparr>step = 10, ts = 10\<rparr>, \<lparr>step = 20, ts = 20\<rparr>]\<rparr>))) \<le> 2
   \<and> save_each (example_manager 10 2 1) [] (map call_at [0..29]) =
     (Inr [True, False, False, False, False, False, False, False, False, False,
           True, False, False, False, False, False, False, False, False, False,
           True, False, False, False, False, False, False, False, False, False],
      (example_manager 10 2 1)\<lparr>tracked_chkpts :=
         [\<lparr>step = 0, ts = 0\<rparr>, \<lparr>step = 10, ts = 10\<rparr>, \<lparr>step = 20, ts = 20\<rparr>]\<rparr>,
      [(''/ckpt/0'', checkpoint_dir 0 0), (''/ckpt/10'', checkpoint_dir 10 10),
       (''/ckpt/20'', checkpoint_dir 20 20)])
   \<and> tracked_chkpts ((example_manager 10 2 1)\<lparr>tracked_chkpts :=
         [\<lparr>step = 0, ts = 0\<rparr>, \<lparr>step = 10, ts = 10\<rparr>, \<lparr>step = 20, ts = 20\<rparr>]\<rparr>) =
       tracked_chkpts (example_manager 10 2 1) @
         taken (example_manager 10 2 1) (map call_at [0..29])"
proof -
  let ?m = "example_manager 10 2 0"
  let ?r = "example_manager 10 2 1"
  let ?cs = "map call_at [0..29]"
  let ?m' = "?m\<lparr>tracked_chkpts := [\<lparr>step = 10, ts = 10\<rparr>, \<lparr>step = 20, ts = 20\<rparr>]\<rparr>"
  let ?r' = "?r\<lparr>tracked_chkpts :=
      [\<lparr>step = 0, ts = 0\<rparr>, \<lparr>step = 10, ts = 10\<rparr>, \<lparr>step = 20, ts = 20\<rparr>]\<rparr>"
  have rank: "pg_rank ?m = 0" and keep: "0 < max_to_keep ?m" and k: "max_to_keep ?m = 2"
    by (simp_all add: example_manager_def)
  have rank1: "pg_rank ?r \<noteq> 0" and keep1: "0 < max_to_keep ?r"
    by (simp_all add: example_manager_def)
  have run: "save_each ?m [] ?cs =
     (Inr [True, False, False, False, False, False, False, False, False, False,
           True, False, False, False, False, False, False, False, False, False,
           True, False, False, False, False, False, False, False, False, False],
      ?m', [(''/ckpt/10'', checkpoint_dir 10 10), (''/ckpt/20'', checkpoint_dir 20 20)])"
    by code_simp
  have run1: "save_each ?r [] ?cs =
     (Inr [True, False, False, False, False, False, False, False, False, False,
           True, False, False, False, False, False, False, False, False, False,
           True, False, False, False, False, False, False, False, False, False],
      ?r', [(''/ckpt/0'', checkpoint_dir 0 0), (''/ckpt/10'', checkpoint_dir 10 10),
            (''/ckpt/20'', checkpoint_dir 20 20)])"
    by code_simp
  have tk: "taken ?m ?cs = [\<lparr>step = 0, ts = 0\<rparr>, \<lparr>step = 10, ts = 10\<rparr>, \<lparr>step = 20, ts = 20\<rparr>]"
    by code_simp
  have ne: "taken ?m ?cs \<noteq> []"
    by (simp add: tk)
  have srt: "sorted (map ts (tracked_chkpts ?m @ taken ?m ?cs))"
    by (simp add: tk) (simp add: example_manager_def)
  have steps: "all_steps ?m' = [10, 20]"
    by (simp add: all_steps_def)
  from retention_by_rank [OF keep run] rank ne
  have len: "int (length (all_steps ?m')) \<le> max_to_keep ?m"
    by blast
  from retention_by_rank [OF keep1 run1] rank1
  have all1: "tracked_chkpts ?r' = tracked_chkpts ?r @ taken ?r ?cs"
    by blast
  show ?thesis
    using run tk srt steps len [unfolded k] run1 all1
    by (intro conjI) assumption+
qed

text \<open>
  The claim as stated fails on a process of rank 1, which never removes a tracked entry:
  the same scenario leaves three tracked steps under a bound of 2. And on rank 0 eviction
  goes by position, not by timestamp: when the clock reads 10 at the first save and 5 at
  the second, a bound of 1 keeps the entry stamped 5 and evicts the one stamped 10.
\<close>

theorem retention_nonzero_rank_counterexample:
  "all_steps (fst (snd (save_each (example_manager 10 2 1) [] (map call_at [0..29])))) = [0, 10, 20]
   \<and> \<not> int (length (all_steps (fst (snd (save_each (example_manager 10 2 1) []
            (map call_at [0..29])))))) \<le> max_to_keep (example_manager 10 2 1)
   \<and> save_each (example_manager 10 1 0) [] [forced_call 0 10, forced_call 10 5] =
       (Inr [True, True],
        (example_manager 10 1 0)\<lparr>tracked_chkpts := [\<lparr>step = 10, ts = 5\<rparr>]\<rparr>,
        [(''/ckpt/10'', checkpoint_dir 10 5)])"
  by code_simp

text \<open>
  C7. For every step \<open>s\<close> that \<^verbatim>\<open>all_steps()\<close> does not contain, \<^verbatim>\<open>restore(s, target)\<close>
  fails with the untracked-step error, which carries the set of the tracked steps, and
  has made no storage call: the trace is empty, the manager and the storage are as before.
\<close>

theorem restore_untracked_step:
  "s \<notin> set (all_steps m) \<Longrightarrow>
     restore m fs s state_dict = (Inl (UntrackedStep s (set (all_steps m))), m, fs, [])"
  by (simp add: restore_def all_steps_def)

theorem restore_untracked_step_witness:
  "5 \<notin> set (all_steps ((example_manager 10 2 0)\<lparr>tracked_chkpts := [\<lparr>step = 10, ts = 10\<rparr>]\<rparr>))
   \<and> restore ((example_manager 10 2 0)\<lparr>tracked_chkpts := [\<lparr>step = 10, ts = 10\<rparr>]\<rparr>)
        [(''/ckpt/10'', checkpoint_dir 10 10)] 5 1 =
      (Inl (UntrackedStep 5 {10}),
       (example_manager 10 2 0)\<lparr>tracked_chkpts := [\<lparr>step = 10, ts = 10\<rparr>]\<rparr>,
       [(''/ckpt/10'', checkpoint_dir 10 10)], [])"
proof -
  let ?m = "(example_manager 10 2 0)\<lparr>tracked_chkpts := [\<lparr>step = 10, ts = 10\<rparr>]\<rparr>"
  have steps: "all_steps ?m = [10]"
    by (simp add: all_steps_def)
  then have "5 \<notin> set (all_steps ?m)"
    by simp
  from this restore_untracked_step [OF this, of "[(''/ckpt/10'', checkpoint_dir 10 10)]" 1] steps
  show ?thesis
    by simp
qed

text \<open>
  C10. \<^verbatim>\<open>restore\<close> never modifies the manager: whatever the step and whatever the
  outcome, the tracked list (hence \<^verbatim>\<open>all_steps()\<close>), \<^verbatim>\<open>max_to_keep\<close>, \<^verbatim>\<open>save_interval\<close>
  and the async queue are as before the call; the storage is not written either.
\<close>

theorem restore_leaves_manager:
  "restore m fs s state_dict = (r, m', fs', t) \<Longrightarrow>
     m' = m \<and> fs' = fs
     \<and> tracked_chkpts m' = tracked_chkpts m \<and> all_steps m' = all_steps m
     \<and> max_to_keep m' = max_to_keep m \<and> save_interval m' = save_interval m
     \<and> async_queue m' = async_queue m"
  by (auto simp: restore_def Let_def split: if_splits)

theorem restore_leaves_manager_witness:
  "restore ((example_manager 10 2 0)\<lparr>tracked_chkpts := [\<lparr>step = 10, ts = 10\<rparr>]\<rparr>)
        [(''/ckpt/10'', checkpoint_dir 10 10)] 10 1 =
      (Inr 0,
       (example_manager 10 2 0)\<lparr>tracked_chkpts := [\<lparr>step = 10, ts = 10\<rparr>]\<rparr>,
       [(''/ckpt/10'', checkpoint_dir 10 10)], [Load_state_dict ''/ckpt/10''])
   \<and> all_steps ((example_manager 10 2 0)\<lparr>tracked_chkpts := [\<lparr>step = 10, ts = 10\<rparr>]\<rparr>) = [10]"
proof -
  let ?m = "(example_manager 10 2 0)\<lparr>tracked_chkpts := [\<lparr>step = 10, ts = 10\<rparr>]\<rparr>"
  obtain r m' fs' t where run: "restore ?m [(''/ckpt/10'', checkpoint_dir 10 10)] 10 1 = (r, m', fs', t)"
    by (cases "restore ?m [(''/ckpt/10'', checkpoint_dir 10 10)] 10 1")
  from restore_leaves_manager [OF run]
  have same: "m' = ?m" "fs' = [(''/ckpt/10'', checkpoint_dir 10 10)]"
    by simp_all
  have "fst (restore ?m [(''/ckpt/10'', checkpoint_dir 10 10)] 10 1) = Inr 0"
    and "snd (snd (snd (restore ?m [(''/ckpt/10'', checkpoint_dir 10 10)] 10 1))) = [Load_state_dict ''/ckpt/10'']"
    by code_simp+
  with run same have "restore ?m [(''/ckpt/10'', checkpoint_dir 10 10)] 10 1 =
      (Inr 0, ?m, [(''/ckpt/10'', checkpoint_dir 10 10)], [Load_state_dict ''/ckpt/10''])"
    by simp
  moreover have "all_steps ?m = [10]"
    by (simp add: all_steps_def)
  ultimately show ?thesis
    by simp
qed

text \<open>
  C1. Calling \<^verbatim>\<open>save(s, snap, force=True)\<close> twice for the same step should leave one
  tracked entry for \<open>s\<close>. The code deletes the old checkpoint directory and appends a
  second entry without removing the first: with no retention bound the step is tracked
  twice, and with a bound of 1 on rank 0 the eviction of the stale first entry deletes
  the directory that the second call has just written, while the step stays tracked:
  \<^verbatim>\<open>restore\<close> of this tracked step then fails in the read.
\<close>

theorem save_twice_tracks_step_twice:
  "save_each (example_manager 10 0 0) [] [forced_call 0 5, forced_call 0 6] =
     (Inr [True, True],
      (example_manager 10 0 0)\<lparr>tracked_chkpts := [\<lparr>step = 0, ts = 5\<rparr>, \<lparr>step = 0, ts = 6\<rparr>]\<rparr>,
      [(''/ckpt/0'', checkpoint_dir 0 6)])
   \<and> all_steps ((example_manager 10 0 0)\<lparr>tracked_chkpts :=
        [\<lparr>step = 0, ts = 5\<rparr>, \<lparr>step = 0, ts = 6\<rparr>]\<rparr>) = [0, 0]
   \<and> save_each (example_manager 10 1 0) [] [forced_call 0 5, forced_call 0 6] =
     (Inr [True, True],
      (example_manager 10 1 0)\<lparr>tracked_chkpts := [\<lparr>step = 0, ts = 6\<rparr>]\<rparr>, [])
   \<and> restore ((example_manager 10 1 0)\<lparr>tracked_chkpts := [\<lparr>step = 0, ts = 6\<rparr>]\<rparr>) [] 0 0 =
     (Inl SnapshotReadError,
      (example_manager 10 1 0)\<lparr>tracked_chkpts := [\<lparr>step = 0, ts = 6\<rparr>]\<rparr>, [],
      [Load_state_dict ''/ckpt/0''])"
  by code_simp

text \<open>
  C3. Deletions should be made by the process of rank 0 only. Retention is behind the
  rank test, but \<^verbatim>\<open>save\<close> calls \<^verbatim>\<open>_delete_chkpt_at_step\<close> on every rank: a process of
  rank 1 saving at a step whose directory exists removes it.
\<close>

theorem save_on_nonzero_rank_deletes:
  "pg_rank (example_manager 10 2 1) = 1
   \<and> save (example_manager 10 2 1) [(''/ckpt/0'', checkpoint_dir 0 1)]
       \<lparr>now = 2, save_state_dict_ok = True, pickle_dump_ok = True\<rparr> 0 0 False =
     (Inr True, (example_manager 10 2 1)\<lparr>tracked_chkpts := [\<lparr>step = 0, ts = 2\<rparr>]\<rparr>,
      [(''/ckpt/0'', checkpoint_dir 0 2)],
      [Fs_exists ''/ckpt/0'', Fs_rm ''/ckpt/0'', Save_state_dict ''/ckpt/0'',
       Open_wb ''/ckpt/0/.manager_metadata''])"
  by code_simp

text \<open>
  C5. A failed attempt of \<^verbatim>\<open>save\<close> should leave the tracked checkpoints and the ledger
  as they were. Where \<^verbatim>\<open>save_state_dict\<close> raises, no metadata file is written and the
  tracked list is untouched; but the checkpoint that the step already had is deleted
  before the write and not brought back: its metadata file is gone from the ledger
  while the step stays tracked, and \<^verbatim>\<open>restore\<close> of this tracked step fails in the read.
\<close>

theorem failed_save_loses_tracked_checkpoint:
  "save (tracking_old 10 2 0) old_checkpoint
      \<lparr>now = 2, save_state_dict_ok = False, pickle_dump_ok = True\<rparr> 0 0 False =
     (Inl SnapshotWriteError, tracking_old 10 2 0,
      [(''/ckpt/0'', \<lparr>snapshot = None, manager_metadata = None\<rparr>)],
      [Fs_exists ''/ckpt/0'', Fs_rm ''/ckpt/0'', Save_state_dict ''/ckpt/0''])
   \<and> pickle_load old_checkpoint ''/ckpt/0'' = Some (Metadata \<lparr>step = 0, ts = 1\<rparr>)
   \<and> pickle_load [(''/ckpt/0'', \<lparr>snapshot = None :: nat option, manager_metadata = None\<rparr>)]
         ''/ckpt/0'' = None
   \<and> all_steps (tracking_old 10 2 0) = [0]
   \<and> restore (tracking_old 10 2 0)
         [(''/ckpt/0'', \<lparr>snapshot = None, manager_metadata = None\<rparr>)] 0 0 =
       (Inl SnapshotReadError, tracking_old 10 2 0,
        [(''/ckpt/0'', \<lparr>snapshot = None, manager_metadata = None\<rparr>)],
        [Load_state_dict ''/ckpt/0''])"
  by code_simp

text \<open>
  C9, as amended. When \<^verbatim>\<open>max_to_keep\<close> is 0 the retention policy is a no-op: it makes
  no storage call and leaves manager and storage as they are. A call of \<^verbatim>\<open>save\<close> then
  removes no tracked entry and removes no path other than that of the step it saves
  (whose existing checkpoint it deletes before rewriting); every other path stays as it
  was. Calls that do not raise track every checkpoint taken, and 100 calls at interval 1
  whose writes succeed, from an empty tracked list, leave 100 tracked steps.
\<close>

theorem unbounded_keeps_everything:
  assumes "max_to_keep m = 0"
  shows "release_oldest_checkpoints m fs = (m, fs, [])
    \<and> (save m fs env s state_dict force = (r, m1, fs1, t) \<longrightarrow>
         (\<exists>new. tracked_chkpts m1 = tracked_chkpts m @ new)
         \<and> (\<forall>p. Fs_rm p \<in> set t \<longrightarrow> p = get_path m s)
         \<and> (\<forall>p. p \<noteq> get_path m s \<longrightarrow> map_of fs1 p = map_of fs p))
    \<and> (save_each m fs cs = (Inr bs, m2, fs2) \<longrightarrow>
         tracked_chkpts m2 = tracked_chkpts m @ taken m cs)
    \<and> (save_interval m = 1 \<and> tracked_chkpts m = [] \<and> list_all writes_ok cs \<and> length cs = 100 \<longrightarrow>
         (\<exists>bs' m' fs'. save_each m fs cs = (Inr bs', m', fs') \<and> length (all_steps m') = 100))"
    (is "?noop \<and> (?one \<longrightarrow> ?kept) \<and> (?many \<longrightarrow> ?appended) \<and> (?scenario \<longrightarrow> ?hundred)")
proof -
  have keep: "retain m' xs = xs" if "max_to_keep m' = 0" for m' :: "'a CheckpointManager" and xs
    using that by (simp add: retain_def)
  have noop: "release_oldest_checkpoints m' fs' = (m', fs', [])" if "max_to_keep m' = 0"
    for m' :: "'a CheckpointManager" and fs'
    using that by (simp add: release_oldest_checkpoints_def)
  have one: ?kept if sv: ?one
  proof -
    let ?p = "get_path m s"
    let ?md = "\<lparr>step = s, ts = now env\<rparr>"
    obtain fs0 t0 where d: "delete_chkpt_at_step m fs s = (fs0, t0)"
      by (cases "delete_chkpt_at_step m fs s")
    let ?m1 = "m\<lparr>tracked_chkpts := tracked_chkpts m @ [?md]\<rparr>"
    let ?fs3 = "write_metadata (write_snapshot fs0 ?p state_dict) ?p ?md"
    have rel: "release_oldest_checkpoints ?m1 ?fs3 = (?m1, ?fs3, [])"
      using assms by (intro noop) simp
    have t0: "\<forall>p. Fs_rm p \<in> set t0 \<longrightarrow> p = ?p"
      using delete_chkpt_trace [OF d] by blast
    note st = delete_chkpt_storage [OF d]
    have f0: "\<forall>p. p \<noteq> ?p \<longrightarrow> map_of fs0 p = map_of fs p"
      using st(2) by simp
    then have f1: "\<forall>p. p \<noteq> ?p \<longrightarrow> map_of (failed_write_snapshot fs0 ?p) p = map_of fs p"
      by (simp add: failed_write_snapshot_other)
    from f0 have f2: "\<forall>p. p \<noteq> ?p \<longrightarrow>
        map_of (failed_write_metadata (write_snapshot fs0 ?p state_dict) ?p) p = map_of fs p"
      by (simp add: failed_write_metadata_other write_snapshot_other)
    from f0 have "\<forall>p. p \<noteq> ?p \<longrightarrow> map_of (write_snapshot fs0 ?p state_dict) p = map_of fs p"
      by (simp add: write_snapshot_other)
    then have f3: "\<forall>p. p \<noteq> ?p \<longrightarrow> map_of ?fs3 p = map_of fs p"
      by (simp add: write_metadata_other)
    from save_manager [OF sv] keep [OF assms]
    have tr: "\<exists>new. tracked_chkpts m1 = tracked_chkpts m @ new"
      by auto
    have "save m fs env s state_dict force = (r, m1, fs1, t)"
      by (rule sv)
    then have "(fs1 = fs \<and> t = [])
        \<or> (fs1 = failed_write_snapshot fs0 ?p \<and> t = t0 @ [Save_state_dict ?p])
        \<or> (fs1 = failed_write_metadata (write_snapshot fs0 ?p state_dict) ?p
             \<and> t = t0 @ [Save_state_dict ?p, Open_wb (path_join ?p MANAGER_METADATA_FILE)])
        \<or> (fs1 = ?fs3
             \<and> t = t0 @ [Save_state_dict ?p, Open_wb (path_join ?p MANAGER_METADATA_FILE)] @ [])"
      unfolding save_unfold [OF d rel] by (auto split: if_splits)
    with t0 f0 f1 f2 f3 have "(\<forall>p. Fs_rm p \<in> set t \<longrightarrow> p = ?p)
        \<and> (\<forall>p. p \<noteq> ?p \<longrightarrow> map_of fs1 p = map_of fs p)"
      by auto
    with tr show ?thesis
      by simp
  qed
  have many: ?appended if ?many
    using save_each_manager [OF that] keep [OF assms] by simp
  have hundred: ?hundred if sc: ?scenario
  proof -
    from sc have iv: "save_interval m \<noteq> 0" and ok: "list_all writes_ok cs"
      by simp_all
    from save_each_returns [OF iv ok, of fs]
    obtain bs' m' fs' where run: "save_each m fs cs = (Inr bs', m', fs')"
      by blast
    from save_each_manager [OF run] keep [OF assms] sc
    have "tracked_chkpts m' = map metadata_of cs"
      by (simp add: taken_every_step)
    with sc have "length (all_steps m') = 100"
      by (simp add: all_steps_def)
    with run show ?thesis
      by blast
  qed
  from noop [OF assms] one many hundred show ?thesis
    by blast
qed

theorem unbounded_keeps_everything_witness:
  "max_to_keep (example_manager 1 0 0) = 0
   \<and> release_oldest_checkpoints (example_manager 1 0 0) [] = (example_manager 1 0 0, [], [])
   \<and> (\<exists>bs m' fs'. save_each (example_manager 1 0 0) [] (map call_at [0..99]) = (Inr bs, m', fs')
         \<and> length (all_steps m') = 100)"
proof -
  let ?m = "example_manager 1 0 0"
  let ?cs = "map call_at [0..99]"
  have k: "max_to_keep ?m = 0"
    by (simp add: example_manager_def)
  have sc: "save_interval ?m = 1 \<and> tracked_chkpts ?m = [] \<and> list_all writes_ok ?cs
      \<and> length ?cs = 100"
    by (simp add: example_manager_def list_all_iff writes_ok_def call_at_def)
  from unbounded_keeps_everything [OF k, where fs = "[]" and cs = ?cs] sc k
  show ?thesis
    by blast
qed

text \<open>
  The claim as stated fails where the step saved already has a checkpoint: with
  \<^verbatim>\<open>max_to_keep = 0\<close> the call still removes that checkpoint before it writes the new one.
\<close>

theorem unbounded_save_removes_own_checkpoint_counterexample:
  "max_to_keep (tracking_old 1 0 0) = 0
   \<and> save (tracking_old 1 0 0) old_checkpoint
       \<lparr>now = 2, save_state_dict_ok = True, pickle_dump_ok = True\<rparr> 0 0 False =
     (Inr True,
      (tracking_old 1 0 0)\<lparr>tracked_chkpts := [\<lparr>step = 0, ts = 1\<rparr>, \<lparr>step = 0, ts = 2\<rparr>]\<rparr>,
      [(''/ckpt/0'', checkpoint_dir 0 2)],
      [Fs_exists ''/ckpt/0'', Fs_rm ''/ckpt/0'', Save_state_dict ''/ckpt/0'',
       Open_wb ''/ckpt/0/.manager_metadata''])"
  by code_simp




end
